theory Spec2Isabelle
  imports Complex_Main "HOL-Library.Extended_Nat"
begin

chapter \<open>The Eve runtime: a shallow embedding of the incremental dataflow core\<close>

text \<open>
  The development follows the runtime source file section by section: the interner,
  changes and prefixes, the output nodes, the join node (multiplicities, Generic Join,
  dormancy) and the transaction (its evaluation loop and the export of changes).  Mutable JavaScript objects
  become records that are passed in and returned; an \<open>undefined\<close> array slot or
  dictionary entry is \<open>None\<close> (or the constructor \<open>Undefined\<close> of \<open>jsval\<close>); a thrown
  \<open>Error\<close> is the left injection of a sum.  Interned IDs, rounds and multiplicities
  are JavaScript numbers holding integers, modelled as \<open>int\<close>, or one of the two infinities.
\<close>

section \<open>Interner\<close>

text \<open>
  \<open>RawValue = string | number\<close>.  A number is used as a key of the \<open>numbers\<close>
  dictionary and a string as a key of the separate \<open>strings\<close> dictionary, so a raw value
  is a tagged sum; finite numbers are embedded in \<open>real\<close> (the key of a finite number
  determines the number).

  \<open>IDRefCount\<close> is only ever incremented, decremented and tested for falsiness; an entry
  that is \<open>undefined\<close> or \<open>NaN\<close> behaves the same under all three and is \<open>None\<close>.
  \<open>IDFreeList\<close> is a stack whose top is the last element (\<open>push\<close>/\<open>pop\<close>).
\<close>

datatype RawValue = Str string | Numb real

type_synonym ID = int

record Interner =
  currentID :: int
  strings :: "string \<rightharpoonup> ID"
  numbers :: "real \<rightharpoonup> ID"
  IDs :: "ID \<rightharpoonup> RawValue"
  IDRefCount :: "ID \<rightharpoonup> int"
  IDFreeList :: "ID list"

definition new_Interner :: Interner where
  "new_Interner = \<lparr>currentID = 0, strings = Map.empty, numbers = Map.empty,
     IDs = Map.empty, IDRefCount = Map.empty, IDFreeList = []\<rparr>"

text \<open>\<open>_getFreeID\<close>: \<open>this.IDFreeList.pop() || this.currentID++\<close>.  The popped value is
  used only when it is truthy: an empty list (\<open>undefined\<close>) and a popped \<open>0\<close> both fall through to the
  counter, and the popped \<open>0\<close> is gone from the list.\<close>

definition getFreeID :: "Interner \<Rightarrow> ID \<times> Interner" where
  "getFreeID s =
     (case IDFreeList s of
        [] \<Rightarrow> (currentID s, s\<lparr>currentID := currentID s + 1\<rparr>)
      | _ # _ \<Rightarrow>
          (let popped = last (IDFreeList s);
               s1 = s\<lparr>IDFreeList := butlast (IDFreeList s)\<rparr>
           in if popped = 0 then (currentID s1, s1\<lparr>currentID := currentID s1 + 1\<rparr>)
              else (popped, s1)))"

text \<open>The dictionary selected by \<open>isNumber(value)\<close>, read and written at \<open>value\<close>.\<close>

definition coll_get :: "Interner \<Rightarrow> RawValue \<Rightarrow> ID option" where
  "coll_get s v = (case v of Numb x \<Rightarrow> numbers s x | Str x \<Rightarrow> strings s x)"

definition coll_set :: "Interner \<Rightarrow> RawValue \<Rightarrow> ID option \<Rightarrow> Interner" where
  "coll_set s v i =
     (case v of Numb x \<Rightarrow> s\<lparr>numbers := (numbers s)(x := i)\<rparr>
              | Str x \<Rightarrow> s\<lparr>strings := (strings s)(x := i)\<rparr>)"

definition intern :: "Interner \<Rightarrow> RawValue \<Rightarrow> ID \<times> Interner" where
  "intern s v =
     (case coll_get s v of
        None \<Rightarrow>
          (let (found, s1) = getFreeID s;
               s2 = coll_set s1 v (Some found);
               s3 = s2\<lparr>IDs := (IDs s2)(found \<mapsto> v)\<rparr>;
               s4 = s3\<lparr>IDRefCount := (IDRefCount s3)(found \<mapsto> 1)\<rparr>
           in (found, s4))
      | Some found \<Rightarrow>
          (found, s\<lparr>IDRefCount := (IDRefCount s)(found := map_option (\<lambda>c. c + 1) (IDRefCount s found))\<rparr>))"

definition reference :: "Interner \<Rightarrow> ID \<Rightarrow> Interner" where
  "reference s i = s\<lparr>IDRefCount := (IDRefCount s)(i := map_option (\<lambda>c. c + 1) (IDRefCount s i))\<rparr>"

definition get :: "Interner \<Rightarrow> RawValue \<Rightarrow> ID option" where
  "get s v = coll_get s v"

definition reverse :: "Interner \<Rightarrow> ID \<Rightarrow> RawValue option" where
  "reverse s i = IDs s i"

text \<open>\<open>release\<close>: the reference count is decremented; when the result is falsy (zero, or
  \<open>NaN\<close> for an ID that has no count) the ID is reclaimed.  For an ID without a value,
  \<open>coll[undefined] = undefined\<close> clears the key \<open>"undefined"\<close> of the string dictionary.\<close>

definition release :: "Interner \<Rightarrow> ID \<Rightarrow> Interner" where
  "release s i =
     (let rc = map_option (\<lambda>c. c - 1) (IDRefCount s i);
          s1 = s\<lparr>IDRefCount := (IDRefCount s)(i := rc)\<rparr>
      in if rc = None \<or> rc = Some 0 then
           (let s2 = (case IDs s1 i of
                        Some v \<Rightarrow> coll_set s1 v None
                      | None \<Rightarrow> s1\<lparr>strings := (strings s1)(''undefined'' := None)\<rparr>);
                s3 = s2\<lparr>IDs := (IDs s2)(i := None)\<rparr>
            in s3\<lparr>IDFreeList := IDFreeList s3 @ [i]\<rparr>)
         else s1)"

text \<open>The states an interner can be in: it starts empty and is changed by \<open>intern\<close>,
  \<open>reference\<close> and the \<open>release\<close> of an ID that currently has a value.\<close>

inductive reachable :: "Interner \<Rightarrow> bool" where
  reach_new: "reachable new_Interner"
| reach_intern: "reachable s \<Longrightarrow> reachable (snd (intern s v))"
| reach_reference: "reachable s \<Longrightarrow> reachable (reference s i)"
| reach_release: "reachable s \<Longrightarrow> IDs s i \<noteq> None \<Longrightarrow> reachable (release s i)"

text \<open>The representation invariant: the two dictionaries and the \<open>IDs\<close> array are inverse to
  each other, free IDs carry no value and lie below the counter, and nothing at or above the
  counter carries a value.\<close>

definition interner_inv :: "Interner \<Rightarrow> bool" where
  "interner_inv s \<longleftrightarrow>
     (\<forall>v i. coll_get s v = Some i \<longrightarrow> IDs s i = Some v) \<and>
     (\<forall>v i. IDs s i = Some v \<longrightarrow> coll_get s v = Some i) \<and>
     (\<forall>i. i \<in> set (IDFreeList s) \<longrightarrow> IDs s i = None \<and> i < currentID s) \<and>
     (\<forall>i. currentID s \<le> i \<longrightarrow> IDs s i = None) \<and>
     distinct (IDFreeList s)"

section \<open>Values, changes, prefixes and registers\<close>

text \<open>
  The values a prefix slot, a resolved scan field or a field of a change can hold at run
  time: \<open>undefined\<close> (an unbound register), \<open>null\<close> (the \<open>IGNORE_REG\<close> sentinel), a number, or
  \<open>NaN\<close> (arithmetic on \<open>undefined\<close>).  The numbers are the integers (IDs, rounds, counts and
  register offsets) and the two infinities (the counts of committed changes).
\<close>

datatype jsval = Undefined | Null | Num int | PosInf | NegInf | NaN

text \<open>\<open>ToNumber\<close> as the arithmetic operators apply it, and the operators on numbers.\<close>

fun to_number :: "jsval \<Rightarrow> jsval" where
  "to_number Undefined = NaN"
| "to_number Null = Num 0"
| "to_number x = x"


fun multiply_numbers :: "jsval \<Rightarrow> jsval \<Rightarrow> jsval" where
  "multiply_numbers (Num i) (Num j) = Num (i * j)"
| "multiply_numbers (Num i) PosInf = (if i = 0 then NaN else if 0 < i then PosInf else NegInf)"
| "multiply_numbers (Num i) NegInf = (if i = 0 then NaN else if 0 < i then NegInf else PosInf)"
| "multiply_numbers PosInf (Num j) = (if j = 0 then NaN else if 0 < j then PosInf else NegInf)"
| "multiply_numbers NegInf (Num j) = (if j = 0 then NaN else if 0 < j then NegInf else PosInf)"
| "multiply_numbers PosInf PosInf = PosInf"
| "multiply_numbers PosInf NegInf = NegInf"
| "multiply_numbers NegInf PosInf = NegInf"
| "multiply_numbers NegInf NegInf = PosInf"
| "multiply_numbers _ _ = NaN"


definition js_mul :: "jsval \<Rightarrow> jsval \<Rightarrow> jsval" where
  "js_mul x y = multiply_numbers (to_number x) (to_number y)"


text \<open>The classes of changes; \<open>RemoveVsChange\<close> and \<open>RemoveAVsChange\<close> extend \<open>RemoveChange\<close>.\<close>

datatype ChangeClass = Change | RemoveChange | RemoveVsChange | RemoveAVsChange

record Change =
  c_class :: ChangeClass
  c_e :: jsval
  c_a :: jsval
  c_v :: jsval
  c_n :: jsval
  c_transaction :: int
  c_round :: jsval
  c_count :: jsval

text \<open>\<open>input === BLOCK_REMOVE\<close> and \<open>input === BLOCK_ADD\<close> compare object identity with the two
  module-level constants, so an input is one of the two signals or an ordinary change.\<close>

datatype Input = BLOCK_REMOVE | BLOCK_ADD | Ordinary Change

definition input_change :: "Input \<Rightarrow> Change" where
  "input_change i = (case i of
      BLOCK_REMOVE \<Rightarrow> \<lparr>c_class = Change, c_e = Num 0, c_a = Num 0, c_v = Num 0, c_n = Num 0,
                        c_transaction = 0, c_round = Num 0, c_count = Num (- 1)\<rparr>
    | BLOCK_ADD \<Rightarrow> \<lparr>c_class = Change, c_e = Num 0, c_a = Num 0, c_v = Num 0, c_n = Num 0,
                     c_transaction = 0, c_round = Num 0, c_count = Num 1\<rparr>
    | Ordinary c \<Rightarrow> c)"

text \<open>A prefix is an array of slots; reading outside the array gives \<open>undefined\<close>, writing
  beyond the end extends the array with holes.\<close>

type_synonym Prefix = "jsval list"

definition slot :: "Prefix \<Rightarrow> int \<Rightarrow> jsval" where
  "slot p i = (if 0 \<le> i \<and> i < int (length p) then p ! nat i else Undefined)"

definition set_slot :: "Prefix \<Rightarrow> nat \<Rightarrow> jsval \<Rightarrow> Prefix" where
  "set_slot p i x =
     (if i < length p then p[i := x] else p @ replicate (i - length p) Undefined @ [x])"

text \<open>The last two slots of a prefix hold its round and its count.\<close>

definition prefixRound :: "Prefix \<Rightarrow> jsval" where
  "prefixRound p = slot p (int (length p) - 2)"

definition prefixCount :: "Prefix \<Rightarrow> jsval" where
  "prefixCount p = slot p (int (length p) - 1)"

text \<open>A scan field: a register (an offset into the prefix), a static interned ID, or the
  \<open>IGNORE_REG\<close> sentinel.\<close>

datatype ScanField = Register nat | Static int | IGNORE_REG

definition resolve_field :: "ScanField \<Rightarrow> Prefix \<Rightarrow> jsval" where
  "resolve_field f p = (case f of Register offset \<Rightarrow> slot p (int offset) | Static i \<Rightarrow> Num i | IGNORE_REG \<Rightarrow> Null)"

section \<open>Output nodes\<close>

text \<open>
  \<open>InsertNode\<close>, \<open>CommitInsertNode extends InsertNode\<close>, \<open>RemoveNode extends InsertNode\<close> and
  \<open>CommitRemoveNode extends CommitInsertNode\<close>.  The multiplier is \<open>1\<close> unless the class
  overrides it with \<open>-1\<close>; \<open>output\<close> pushes to \<open>binds\<close> unless \<open>CommitInsertNode\<close> overrides it
  to push to \<open>commits\<close>; \<open>exec\<close> is \<open>InsertNode.exec\<close> for the two insert classes and
  \<open>RemoveNode.exec\<close> for the two remove classes (\<open>CommitRemoveNode\<close> calls it through \<open>_exec\<close>).
\<close>

datatype OutputNodeClass = InsertNode | CommitInsertNode | RemoveNode | CommitRemoveNode



text \<open>The two result iterators of an output node, \<open>binds\<close> and \<open>commits\<close>.\<close>

type_synonym Outputs = "Change list \<times> Change list"

fun node_output :: "OutputNodeClass \<Rightarrow> Change \<Rightarrow> Outputs \<Rightarrow> Outputs" where
  "node_output InsertNode c (binds, commits) = (binds @ [c], commits)"
| "node_output RemoveNode c (binds, commits) = (binds @ [c], commits)"
| "node_output CommitInsertNode c (binds, commits) = (binds, commits @ [c])"
| "node_output CommitRemoveNode c (binds, commits) = (binds, commits @ [c])"

text \<open>What an \<open>exec\<close> can throw.\<close>

datatype error =
  UndefinedEAVN jsval jsval jsval jsval
  \<comment> \<open>\<open>Unable to produce an output with an undefined EAVN field [e, a, v, n]\<close>\<close>
| TypeError
  \<comment> \<open>a property read or written on \<open>undefined\<close>\<close>
| AskingForDiffs
  \<comment> \<open>\<open>Asking for Diffs from MoveConstraint\<close>\<close>
| NoExportHandler
  \<comment> \<open>\<open>Unable to export changes without export handler.\<close>\<close>




section \<open>Constraints\<close>

text \<open>
  Arithmetic and comparison on rounds and counts, which are read from prefix slots and from
  changes: \<open>Math.max\<close>, \<open>>\<close> and loose equality \<open>==\<close> on the values of \<open>jsval\<close>.
\<close>

fun max_numbers :: "jsval \<Rightarrow> jsval \<Rightarrow> jsval" where
  "max_numbers (Num i) (Num j) = Num (max i j)"
| "max_numbers NaN y = NaN"
| "max_numbers x NaN = NaN"
| "max_numbers PosInf y = PosInf"
| "max_numbers x PosInf = PosInf"
| "max_numbers NegInf y = y"
| "max_numbers x NegInf = x"
| "max_numbers _ _ = NaN"

fun greater_numbers :: "jsval \<Rightarrow> jsval \<Rightarrow> bool" where
  "greater_numbers (Num i) (Num j) = (i > j)"
| "greater_numbers PosInf (Num j) = True"
| "greater_numbers PosInf NegInf = True"
| "greater_numbers (Num i) NegInf = True"
| "greater_numbers _ _ = False"

definition js_max :: "jsval \<Rightarrow> jsval \<Rightarrow> jsval" where
  "js_max x y = max_numbers (to_number x) (to_number y)"

definition js_gt :: "jsval \<Rightarrow> jsval \<Rightarrow> bool" where
  "js_gt x y = greater_numbers (to_number x) (to_number y)"

fun js_loose_eq :: "jsval \<Rightarrow> jsval \<Rightarrow> bool" where
  "js_loose_eq (Num i) (Num j) = (i = j)"
| "js_loose_eq PosInf PosInf = True"
| "js_loose_eq NegInf NegInf = True"
| "js_loose_eq Undefined Undefined = True"
| "js_loose_eq Undefined Null = True"
| "js_loose_eq Null Undefined = True"
| "js_loose_eq Null Null = True"
| "js_loose_eq _ _ = False"

text \<open>Unary plus, and reading an array that may be too short.\<close>

definition js_unary_plus :: "jsval \<Rightarrow> jsval" where
  "js_unary_plus x = to_number x"

definition element :: "jsval list \<Rightarrow> nat \<Rightarrow> jsval" where
  "element xs i = (if i < length xs then xs ! i else Undefined)"

datatype ApplyInputState = ApplyInput_pass | ApplyInput_fail | ApplyInput_none

type_synonym RoundArray = "int list"

text \<open>
  A proposal.  \<open>forRegisters\<close> is the backing array of the proposal's register iterator
  (the only part of it that \<open>genericJoin\<close> reads); a register is its offset and a hole of the
  array is \<open>None\<close>.  \<open>cardinality\<close> may be \<open>Infinity\<close>.  \<open>proposer\<close> is an object reference:
  the constraints of a node are identified by their position in the node's constraint
  array, and the proposer of \<open>emptyProposal\<close>, a fresh object, is \<open>None\<close>.
\<close>

record Proposal =
  cardinality :: enat
  forRegisters :: "nat option list"
  skip :: bool
  proposer :: "nat option"

text \<open>What \<open>resolveProposal\<close> returns: an array of values for one register, or an array of
  arrays holding one value per proposed register.\<close>

datatype Resolved = Flat "jsval list" | Nested "jsval list list"

text \<open>
  The \<open>Constraint\<close> interface, with the \<open>context\<close>, \<open>transaction\<close> and \<open>round\<close> arguments of its
  methods.  The record is a constraint after \<open>setup()\<close>.  \<open>kind\<close> answers the \<open>instanceof\<close>
  tests of the join node; a move constraint carries its \<open>from\<close> and \<open>to\<close>.  The scratch array
  \<open>results\<close> handed to \<open>propose\<close> and \<open>resolveProposal\<close> is not part of the model.
\<close>

datatype ConstraintKind = ScanKind | FunctionKind | MoveKind ScanField nat

record 'ctx Constraint =
  kind :: ConstraintKind
  isInput :: bool
  getRegisters :: "nat list"
  isAffected :: "Change \<Rightarrow> ApplyInputState"
  applyInput :: "Change \<Rightarrow> Prefix \<Rightarrow> ApplyInputState \<times> Prefix"
  propose :: "'ctx \<Rightarrow> Prefix \<Rightarrow> int \<Rightarrow> jsval \<Rightarrow> Proposal"
  resolveProposal :: "'ctx \<Rightarrow> Prefix \<Rightarrow> Proposal \<Rightarrow> int \<Rightarrow> jsval \<Rightarrow> Resolved"
  accept :: "'ctx \<Rightarrow> Prefix \<Rightarrow> int \<Rightarrow> jsval \<Rightarrow> nat option list \<Rightarrow> bool"
  acceptInput :: "'ctx \<Rightarrow> Change \<Rightarrow> Prefix \<Rightarrow> int \<Rightarrow> jsval \<Rightarrow> bool"
  getDiffs :: "'ctx \<Rightarrow> Prefix \<Rightarrow> error + RoundArray"

subsection \<open>Move constraint\<close>

definition Move_resolve :: "ScanField \<Rightarrow> nat \<Rightarrow> Prefix \<Rightarrow> jsval \<times> jsval" where
  "Move_resolve from to prefix = (resolve_field from prefix, slot prefix (int to))"

definition Move_isAffected :: "bool \<Rightarrow> Change \<Rightarrow> ApplyInputState" where
  "Move_isAffected shouldApplyInput input = (if shouldApplyInput then ApplyInput_pass else ApplyInput_none)"

definition Move_applyInput :: "ScanField \<Rightarrow> nat \<Rightarrow> bool \<Rightarrow> Change \<Rightarrow> Prefix \<Rightarrow> ApplyInputState \<times> Prefix" where
  "Move_applyInput from to shouldApplyInput input prefix =
     (if shouldApplyInput then
        (let value = resolve_field from prefix; current = slot prefix (int to)
         in if value \<noteq> Undefined \<and> (current = Undefined \<or> js_loose_eq current value)
            then (ApplyInput_pass, set_slot prefix to value)
            else (ApplyInput_fail, prefix))
      else (ApplyInput_none, prefix))"

definition Move_propose :: "ScanField \<Rightarrow> nat \<Rightarrow> Prefix \<Rightarrow> Proposal" where
  "Move_propose from to prefix =
     (let (from', to') = Move_resolve from to prefix
      in \<lparr>cardinality = 1, forRegisters = [Some to],
          skip = (\<not> (from' \<noteq> Undefined \<and> to' = Undefined)), proposer = None\<rparr>)"

definition Move_resolveProposal :: "ScanField \<Rightarrow> nat \<Rightarrow> Prefix \<Rightarrow> Resolved" where
  "Move_resolveProposal from to prefix = (let (from', to') = Move_resolve from to prefix in Flat [from'])"

definition Move_accept :: "ScanField \<Rightarrow> nat \<Rightarrow> Prefix \<Rightarrow> bool" where
  "Move_accept from to prefix =
     (let (from', to') = Move_resolve from to prefix
      in if from' \<noteq> Undefined \<and> to' \<noteq> Undefined then js_loose_eq from' to' else True)"

text \<open>A \<open>MoveConstraint\<close> as an implementation of the interface; \<open>getDiffs\<close> throws.\<close>

definition MoveConstraint :: "ScanField \<Rightarrow> nat \<Rightarrow> bool \<Rightarrow> 'ctx Constraint" where
  "MoveConstraint from to shouldApplyInput =
     \<lparr>kind = MoveKind from to, isInput = False, getRegisters = [to],
      isAffected = Move_isAffected shouldApplyInput,
      applyInput = Move_applyInput from to shouldApplyInput,
      propose = (\<lambda>context prefix transaction rnd. Move_propose from to prefix),
      resolveProposal = (\<lambda>context prefix proposal transaction rnd. Move_resolveProposal from to prefix),
      accept = (\<lambda>context prefix transaction rnd solvingFor. Move_accept from to prefix),
      acceptInput = (\<lambda>context input prefix transaction rnd. Move_accept from to prefix),
      getDiffs = (\<lambda>context prefix. Inl AskingForDiffs)\<rparr>"

text \<open>\<open>isStatic\<close> of a move constraint after \<open>setup()\<close>: its source is not a register.\<close>

fun Move_isStatic :: "ScanField \<Rightarrow> bool" where
  "Move_isStatic (Register offset) = False"
| "Move_isStatic _ = True"

section \<open>JoinNode\<close>

text \<open>
  Where a name of the source is also the name of a record field or of a library constant of
  the theory, a bound variable takes a variant of it: \<open>rnd\<close> for \<open>round\<close>, \<open>dfs\<close> for \<open>diffs\<close>, \<open>lookup\<close> for
  \<open>registerLookup\<close>, \<open>len\<close> for \<open>registerLength\<close>, \<open>cs\<close> for \<open>constraints\<close>.
\<close>


text \<open>
  The fields of a join node.  \<open>registerLookup\<close> is a sparse array of \<open>true\<close>.
  \<open>registerArrays\<close> and \<open>proposedResultsArrays\<close> always have the same length; the second holds
  scratch arrays only and is represented by the length of the first.  \<open>exec_replaced\<close> records
  that the constructor has overwritten \<open>exec\<close> with \<open>downStreamExec\<close>.
\<close>

record 'ctx JoinNode =
  constraints :: "'ctx Constraint list"
  isStatic :: bool
  dormant :: bool
  registerLength :: nat
  registerLookup :: "bool list"
  registerArrays :: "nat option list list"
  inputCount :: jsval
  exec_replaced :: bool

subsection \<open>Constructor\<close>

definition lookup_set :: "bool list \<Rightarrow> nat \<Rightarrow> bool list" where
  "lookup_set l i = (if i < length l then l[i := True] else l @ replicate (i - length l) False @ [True])"

definition lookup_get :: "bool list \<Rightarrow> nat \<Rightarrow> bool" where
  "lookup_get l i = (i < length l \<and> l ! i)"

text \<open>The inner loop of the constructor over the registers of one constraint; the state is
  \<open>(registerLookup, registers, registerLength)\<close>, written \<open>(lookup, registers, len)\<close>.\<close>

fun constructor_registers :: "nat list \<Rightarrow> bool list \<times> nat option list list \<times> nat \<Rightarrow> bool list \<times> nat option list list \<times> nat" where
  "constructor_registers [] st = st"
| "constructor_registers (offset # rest) (lookup, registers, len) =
     (if \<not> lookup_get lookup offset
      then constructor_registers rest (lookup_set lookup offset, registers @ [[]], len + 1)
      else constructor_registers rest (lookup, registers, len))"

text \<open>The loop of the constructor over the constraints; the state adds
  \<open>hasOnlyMoves\<close>, \<open>hasNoScans\<close> and \<open>onlyStatic\<close>.\<close>

fun constructor_loop :: "'ctx Constraint list \<Rightarrow> (bool list \<times> nat option list list \<times> nat) \<times> bool \<times> bool \<times> bool
    \<Rightarrow> (bool list \<times> nat option list list \<times> nat) \<times> bool \<times> bool \<times> bool" where
  "constructor_loop [] st = st"
| "constructor_loop (constraint # rest) (regs, hasOnlyMoves, hasNoScans, onlyStatic) =
     (let hasOnlyMoves' = (case kind constraint of MoveKind from to \<Rightarrow> hasOnlyMoves | _ \<Rightarrow> False);
          onlyStatic' = (case kind constraint of MoveKind from to \<Rightarrow> (if \<not> Move_isStatic from then False else onlyStatic)
                                               | _ \<Rightarrow> onlyStatic);
          hasNoScans' = (if kind constraint = ScanKind then False else hasNoScans)
      in constructor_loop rest (constructor_registers (getRegisters constraint) regs, hasOnlyMoves', hasNoScans', onlyStatic'))"

definition set_shouldApplyInput :: "'ctx Constraint \<Rightarrow> 'ctx Constraint" where
  "set_shouldApplyInput constraint =
     (case kind constraint of
        MoveKind from to \<Rightarrow> (MoveConstraint from to True)\<lparr>isInput := isInput constraint\<rparr>
      | _ \<Rightarrow> constraint)"

definition new_JoinNode :: "'ctx Constraint list \<Rightarrow> 'ctx JoinNode" where
  "new_JoinNode cs =
     (let ((lookup, registers, len), hasOnlyMoves, hasNoScans, onlyStatic) =
            constructor_loop cs (([], [], 0), True, True, True)
      in \<lparr>constraints = (if hasOnlyMoves then map set_shouldApplyInput cs else cs),
          isStatic = (if hasOnlyMoves then onlyStatic else False),
          dormant = False,
          registerLength = len,
          registerLookup = lookup,
          registerArrays = registers,
          inputCount = Undefined,
          exec_replaced = hasNoScans\<rparr>)"

subsection \<open>Multiplicities\<close>

text \<open>
  The first loop of \<open>computeMultiplicities\<close> over one scan's round array: it stops at the first
  entry whose round \<open>|round| - 1\<close> lies after the current round and returns the index reached
  and the sum of the signs passed.
\<close>

fun currentRoundCount_loop :: "jsval \<Rightarrow> RoundArray \<Rightarrow> nat \<Rightarrow> int \<Rightarrow> nat \<times> int" where
  "currentRoundCount_loop currentRound [] ix currentRoundCount = (ix, currentRoundCount)"
| "currentRoundCount_loop currentRound (rnd # rounds) ix currentRoundCount =
     (if js_gt (Num (\<bar>rnd\<bar> - 1)) currentRound then (ix, currentRoundCount)
      else currentRoundCount_loop currentRound rounds (Suc ix)
             (currentRoundCount + (if rnd > 0 then 1 else - 1)))"

text \<open>Writing index \<open>i\<close> of an array: a negative index names a property that a copy of the
  array does not carry.\<close>

definition set_index :: "Prefix \<Rightarrow> int \<Rightarrow> jsval \<Rightarrow> Prefix" where
  "set_index p i x = (if 0 \<le> i then set_slot p (nat i) x else p)"

definition set_round_count :: "Prefix \<Rightarrow> jsval \<Rightarrow> jsval \<Rightarrow> Prefix" where
  "set_round_count p r c =
     set_index (set_index p (int (length p) - 2) r) (int (length p) - 1) c"

text \<open>
  \<open>computeMultiplicities\<close> for \<open>diffIndex \<ge> 0\<close>; the list argument holds \<open>diffs[diffIndex..]\<close>.
  The source keeps the round and the multiplicity reached so far in the last two slots of
  the prefix and reads them back as \<open>startingRound\<close> and \<open>startingMultiplicity\<close> at the next
  index; here they are arguments, and they are written into the copy that is pushed.
\<close>

fun computeMultiplicities_at :: "Prefix list \<Rightarrow> Prefix \<Rightarrow> jsval \<Rightarrow> RoundArray list \<Rightarrow> jsval \<Rightarrow> jsval \<Rightarrow> Prefix list" where
  "computeMultiplicities_at results prefix currentRound [] startingRound startingMultiplicity =
     results @ [set_round_count prefix startingRound startingMultiplicity]"
| "computeMultiplicities_at results prefix currentRound (rounds # dfs) startingRound startingMultiplicity =
     (let (ix, currentRoundCount) = currentRoundCount_loop currentRound rounds 0 0;
          results1 =
            (if currentRoundCount \<noteq> 0
             then computeMultiplicities_at results prefix currentRound dfs
                    (js_max currentRound startingRound)
                    (js_mul startingMultiplicity (Num currentRoundCount))
             else results)
      in fold (\<lambda>rnd res.
                 computeMultiplicities_at res prefix currentRound dfs
                   (js_max (Num (\<bar>rnd\<bar> - 1)) startingRound)
                   (js_mul startingMultiplicity (Num (if rnd > 0 then 1 else - 1))))
              (drop ix rounds) results1)"

text \<open>\<open>computeMultiplicities\<close> with \<open>diffIndex = -1\<close>: the slots start at the current round and
  the node's input count, and both are \<open>undefined\<close> in the caller's prefix afterwards.\<close>

definition computeMultiplicities :: "'ctx JoinNode \<Rightarrow> Prefix list \<Rightarrow> Prefix \<Rightarrow> jsval \<Rightarrow> RoundArray list \<Rightarrow> Prefix \<times> Prefix list" where
  "computeMultiplicities node results prefix currentRound dfs =
     (set_round_count prefix Undefined Undefined,
      computeMultiplicities_at results prefix currentRound dfs currentRound (inputCount node))"

text \<open>The loop of \<open>prefixToResults\<close> collecting the round arrays of the scans that are not
  inputs.\<close>

fun collect_diffs :: "'ctx \<Rightarrow> 'ctx Constraint list \<Rightarrow> Prefix \<Rightarrow> error + RoundArray list" where
  "collect_diffs context [] prefix = Inr []"
| "collect_diffs context (constraint # rest) prefix =
     (if isInput constraint \<or> kind constraint \<noteq> ScanKind then collect_diffs context rest prefix
      else (case getDiffs constraint context prefix of
              Inl err \<Rightarrow> Inl err
            | Inr cur \<Rightarrow> (case collect_diffs context rest prefix of
                            Inl err \<Rightarrow> Inl err
                          | Inr dfs \<Rightarrow> Inr (cur # dfs))))"

text \<open>The state that the join threads through its recursion: the node (for its register
  arrays), the prefix being solved and the results pushed so far.\<close>

type_synonym 'ctx JoinState = "'ctx JoinNode \<times> Prefix \<times> Prefix list"

definition prefixToResults :: "'ctx \<Rightarrow> jsval \<Rightarrow> 'ctx JoinState \<Rightarrow> error + 'ctx JoinState" where
  "prefixToResults context rnd st =
     (case st of (node, prefix, results) \<Rightarrow>
        (case collect_diffs context (constraints node) prefix of
           Inl err \<Rightarrow> Inl err
         | Inr dfs \<Rightarrow>
             (let (prefix', results') = computeMultiplicities node results prefix rnd dfs
              in Inr (node, prefix', results'))))"

subsection \<open>The composition of multiplicities in the words of the specification\<close>










subsection \<open>Generic Join\<close>

definition emptyProposal :: Proposal where
  "emptyProposal = \<lparr>cardinality = \<infinity>, forRegisters = [], skip = True, proposer = None\<rparr>"

text \<open>
  The loop of \<open>genericJoin\<close> that asks every constraint for a proposal.  \<open>None\<close> is the early
  \<open>return results\<close> taken when a proposal that is not skipped has cardinality \<open>0\<close>.  The
  \<open>proposer\<close> of the proposal of the constraint at position \<open>ix\<close> is that constraint.
\<close>

fun bestProposal_loop :: "'ctx \<Rightarrow> 'ctx Constraint list \<Rightarrow> Prefix \<Rightarrow> int \<Rightarrow> jsval \<Rightarrow> nat \<Rightarrow> Proposal \<Rightarrow> Proposal option" where
  "bestProposal_loop context [] prefix transaction rnd ix bestProposal = Some bestProposal"
| "bestProposal_loop context (constraint # rest) prefix transaction rnd ix bestProposal =
     (let current = (propose constraint context prefix transaction rnd)\<lparr>proposer := Some ix\<rparr>
      in if \<not> skip current \<and> cardinality current = 0 then None
         else if cardinality current < cardinality bestProposal \<and> \<not> skip current
              then bestProposal_loop context rest prefix transaction rnd (Suc ix) current
              else bestProposal_loop context rest prefix transaction rnd (Suc ix) bestProposal)"

text \<open>
  \<open>moveArray(arr, arr2)\<close>: the loop runs once per element of \<open>arr\<close> but never advances \<open>ix\<close>, so
  it writes \<open>arr[0]\<close> to \<open>arr2[0]\<close>; then \<open>arr2\<close> is cut or extended (with holes) to the length
  of \<open>arr\<close>.
\<close>

definition moveArray :: "'a option list \<Rightarrow> 'a option list \<Rightarrow> 'a option list" where
  "moveArray arr arr2 =
     (let arr2' = (if arr = [] then arr2 else if arr2 = [] then [hd arr] else arr2[0 := hd arr])
      in if length arr2' \<noteq> length arr
         then take (length arr) arr2' @ replicate (length arr - length arr2') None
         else arr2')"

text \<open>The loop over the constraints that asks every constraint but the proposer to accept
  the prefix; \<open>False\<close> is \<open>continue resultLoop\<close>.\<close>

fun others_accept :: "'ctx \<Rightarrow> 'ctx Constraint list \<Rightarrow> nat \<Rightarrow> nat option \<Rightarrow> Prefix \<Rightarrow> int \<Rightarrow> jsval \<Rightarrow> nat option list \<Rightarrow> bool" where
  "others_accept context [] ix winner prefix transaction rnd forRegs = True"
| "others_accept context (constraint # rest) ix winner prefix transaction rnd forRegs =
     (if Some ix = winner then others_accept context rest (Suc ix) winner prefix transaction rnd forRegs
      else if \<not> accept constraint context prefix transaction rnd forRegs then False
      else others_accept context rest (Suc ix) winner prefix transaction rnd forRegs)"

text \<open>Writing one result into the registers of the proposal: \<open>prefix[register.offset] =
  +result[ix]\<close>; a hole among the registers makes \<open>register.offset\<close> throw.\<close>

fun bind_registers :: "nat option list \<Rightarrow> jsval list \<Rightarrow> nat \<Rightarrow> Prefix \<Rightarrow> error + Prefix" where
  "bind_registers [] result ix prefix = Inr prefix"
| "bind_registers (None # rest) result ix prefix = Inl TypeError"
| "bind_registers (Some offset # rest) result ix prefix =
     bind_registers rest result (Suc ix) (set_slot prefix offset (js_unary_plus (element result ix)))"

fun clear_registers :: "nat option list \<Rightarrow> Prefix \<Rightarrow> error + Prefix" where
  "clear_registers [] prefix = Inr prefix"
| "clear_registers (None # rest) prefix = Inl TypeError"
| "clear_registers (Some offset # rest) prefix = clear_registers rest (set_slot prefix offset Undefined)"

text \<open>
  What happens to one candidate once it is written into the prefix: if another constraint
  rejects the prefix nothing else happens; otherwise the join goes on with \<open>next\<close>, which
  is \<open>prefixToResults\<close> when \<open>roundIx\<close> is \<open>1\<close> and \<open>genericJoin\<close> for \<open>roundIx - 1\<close> otherwise.
\<close>

definition try_candidate :: "'ctx \<Rightarrow> 'ctx Constraint list \<Rightarrow> nat option \<Rightarrow> int \<Rightarrow> jsval \<Rightarrow> nat option list
    \<Rightarrow> ('ctx JoinState \<Rightarrow> error + 'ctx JoinState) \<Rightarrow> 'ctx JoinState \<Rightarrow> error + 'ctx JoinState" where
  "try_candidate context cs winner transaction rnd forRegs next st =
     (case st of (node, prefix, results) \<Rightarrow>
        if \<not> others_accept context cs 0 winner prefix transaction rnd forRegs then Inr st
        else next st)"

text \<open>The two result loops: over arrays of values, and over single values for the first
  register.\<close>

fun resultLoop_nested :: "'ctx \<Rightarrow> 'ctx Constraint list \<Rightarrow> nat option \<Rightarrow> int \<Rightarrow> jsval \<Rightarrow> nat option list
    \<Rightarrow> ('ctx JoinState \<Rightarrow> error + 'ctx JoinState) \<Rightarrow> jsval list list \<Rightarrow> 'ctx JoinState \<Rightarrow> error + 'ctx JoinState" where
  "resultLoop_nested context cs winner transaction rnd forRegs next [] st = Inr st"
| "resultLoop_nested context cs winner transaction rnd forRegs next (result # rest) (node, prefix, results) =
     (case bind_registers forRegs result 0 prefix of
        Inl err \<Rightarrow> Inl err
      | Inr prefix' \<Rightarrow>
          (case try_candidate context cs winner transaction rnd forRegs next (node, prefix', results) of
             Inl err \<Rightarrow> Inl err
           | Inr st' \<Rightarrow> resultLoop_nested context cs winner transaction rnd forRegs next rest st'))"

fun resultLoop_flat :: "'ctx \<Rightarrow> 'ctx Constraint list \<Rightarrow> nat option \<Rightarrow> int \<Rightarrow> jsval \<Rightarrow> nat option list
    \<Rightarrow> ('ctx JoinState \<Rightarrow> error + 'ctx JoinState) \<Rightarrow> jsval list \<Rightarrow> 'ctx JoinState \<Rightarrow> error + 'ctx JoinState" where
  "resultLoop_flat context cs winner transaction rnd forRegs next [] st = Inr st"
| "resultLoop_flat context cs winner transaction rnd forRegs next (result # rest) (node, prefix, results) =
     (case forRegs of
        Some offset # others \<Rightarrow>
          (case try_candidate context cs winner transaction rnd forRegs next
                  (node, set_slot prefix offset (js_unary_plus result), results) of
             Inl err \<Rightarrow> Inl err
           | Inr st' \<Rightarrow> resultLoop_flat context cs winner transaction rnd forRegs next rest st')
      | _ \<Rightarrow> Inl TypeError)"

text \<open>
  One call of \<open>genericJoin\<close> for \<open>roundIx\<close>, with the continuation \<open>next\<close> for an accepted
  candidate.  \<open>proposedResultsArrays[roundIx - 1]\<close> and \<open>registerArrays[roundIx - 1]\<close> exist
  only for \<open>1 \<le> roundIx \<le> registerArrays.length\<close>; outside, setting the length of
  \<open>undefined\<close> throws.  The constraints are those of the node at the start of the call.
\<close>

definition genericJoin_step :: "'ctx \<Rightarrow> int \<Rightarrow> jsval \<Rightarrow> nat
    \<Rightarrow> ('ctx JoinState \<Rightarrow> error + 'ctx JoinState) \<Rightarrow> 'ctx JoinState \<Rightarrow> error + 'ctx JoinState" where
  "genericJoin_step context transaction rnd roundIx next st =
     (case st of (node, prefix, results) \<Rightarrow>
        if roundIx = 0 \<or> length (registerArrays node) < roundIx then Inl TypeError
        else
          (case bestProposal_loop context (constraints node) prefix transaction rnd 0 emptyProposal of
             None \<Rightarrow> Inr st
           | Some bestProposal \<Rightarrow>
               if skip bestProposal then Inr st
               else
                 (case proposer bestProposal of
                    None \<Rightarrow> Inl TypeError
                  | Some p \<Rightarrow>
                      if length (constraints node) \<le> p then Inl TypeError
                      else
                        (let forRegs = moveArray (forRegisters bestProposal) (registerArrays node ! (roundIx - 1));
                             node' = node\<lparr>registerArrays := (registerArrays node)[roundIx - 1 := forRegs]\<rparr>;
                             resolved = resolveProposal (constraints node ! p) context prefix bestProposal transaction rnd;
                             looped =
                               (case resolved of
                                  Nested rs \<Rightarrow> resultLoop_nested context (constraints node) (Some p) transaction rnd
                                                  forRegs next rs (node', prefix, results)
                                | Flat xs \<Rightarrow> resultLoop_flat context (constraints node) (Some p) transaction rnd
                                                forRegs next xs (node', prefix, results))
                         in case looped of
                              Inl err \<Rightarrow> Inl err
                            | Inr (node'', prefix'', results'') \<Rightarrow>
                                (case clear_registers forRegs prefix'' of
                                   Inl err \<Rightarrow> Inl err
                                 | Inr prefix''' \<Rightarrow> Inr (node'', prefix''', results''))))))"

fun genericJoin :: "'ctx \<Rightarrow> int \<Rightarrow> jsval \<Rightarrow> nat \<Rightarrow> 'ctx JoinState \<Rightarrow> error + 'ctx JoinState" where
  "genericJoin context transaction rnd 0 st = Inl TypeError"
| "genericJoin context transaction rnd (Suc k) st =
     genericJoin_step context transaction rnd (Suc k)
       (\<lambda>st'. if Suc k = 1 then prefixToResults context rnd st'
              else genericJoin context transaction rnd k st') st"

subsection \<open>Applying a combination\<close>

definition countOfSolved :: "bool list \<Rightarrow> Prefix \<Rightarrow> nat" where
  "countOfSolved lookup prefix =
     fold (\<lambda>ix n. if \<not> lookup ! ix then n else if slot prefix (int ix) \<noteq> Undefined then n + 1 else n)
          [0..<length lookup] 0"

fun presolveCheck :: "'ctx \<Rightarrow> 'ctx Constraint list \<Rightarrow> Change \<Rightarrow> Prefix \<Rightarrow> int \<Rightarrow> jsval \<Rightarrow> bool" where
  "presolveCheck context [] input prefix transaction rnd = True"
| "presolveCheck context (constraint # rest) input prefix transaction rnd =
     (if \<not> acceptInput constraint context input prefix transaction rnd then False
      else presolveCheck context rest input prefix transaction rnd)"

text \<open>\<open>remainingToSolve\<close> is the \<open>roundIx\<close> handed to \<open>genericJoin\<close>; a negative one has no
  scratch array.\<close>

definition applyCombination :: "'ctx \<Rightarrow> Change \<Rightarrow> int \<Rightarrow> jsval \<Rightarrow> 'ctx JoinState \<Rightarrow> error + (bool \<times> 'ctx JoinState)" where
  "applyCombination context input transaction rnd st =
     (case st of (node, prefix, results) \<Rightarrow>
        (let remainingToSolve = int (registerLength node) - int (countOfSolved (registerLookup node) prefix);
             valid = presolveCheck context (constraints node) input prefix transaction rnd
         in if \<not> valid then Inr (False, st)
            else if remainingToSolve = 0 then
              (case prefixToResults context rnd st of Inl err \<Rightarrow> Inl err | Inr st' \<Rightarrow> Inr (True, st'))
            else if remainingToSolve < 0 then Inl TypeError
            else
              (case genericJoin context transaction rnd (nat remainingToSolve) st of
                 Inl err \<Rightarrow> Inl err | Inr st' \<Rightarrow> Inr (True, st'))))"

subsection \<open>\<open>downStreamExec\<close> and \<open>exec\<close>\<close>

text \<open>The end of both \<open>exec\<close> methods: \<open>if(this.isStatic && didSomething) this.dormant = true;
  return didSomething\<close>.\<close>

definition mark_dormant :: "error + (bool \<times> 'ctx JoinState) \<Rightarrow> error + (bool \<times> 'ctx JoinState)" where
  "mark_dormant r =
     (case r of
        Inl err \<Rightarrow> Inl err
      | Inr (didSomething, (node, prefix, results)) \<Rightarrow>
          Inr (didSomething,
               (if isStatic node \<and> didSomething then node\<lparr>dormant := True\<rparr> else node),
               prefix, results))"

definition downStreamExec :: "'ctx \<Rightarrow> Input \<Rightarrow> int \<Rightarrow> jsval \<Rightarrow> 'ctx JoinState \<Rightarrow> error + (bool \<times> 'ctx JoinState)" where
  "downStreamExec context input transaction rnd st =
     (case st of (node, prefix, results) \<Rightarrow>
        if isStatic node \<and> dormant node then Inr (False, st)
        else
          (let node1 = node\<lparr>inputCount := (if prefixCount prefix \<noteq> Undefined then prefixCount prefix
                                              else c_count (input_change input))\<rparr>;
               inputRound = (if prefixRound prefix \<noteq> Undefined then prefixRound prefix
                             else c_round (input_change input))
           in mark_dormant
                (applyCombination context (input_change input) transaction inputRound (node1, prefix, results))))"

text \<open>\<open>findAffectedConstraints\<close>: the positions of the constraints that the input affects.\<close>

fun findAffectedConstraints :: "'ctx Constraint list \<Rightarrow> nat \<Rightarrow> Change \<Rightarrow> nat list" where
  "findAffectedConstraints [] ix input = []"
| "findAffectedConstraints (constraint # rest) ix input =
     (if isAffected constraint input \<noteq> ApplyInput_none
      then ix # findAffectedConstraints rest (Suc ix) input
      else findAffectedConstraints rest (Suc ix) input)"

text \<open>
  The inner loop of one combination over the affected constraints, from \<open>constraintIx\<close> on:
  it marks each one as input or not and applies the input to the included ones, stopping
  at the first that fails.  \<open>(comboIx & (1 << constraintIx)) !== 0\<close> is bit \<open>constraintIx\<close> of
  \<open>comboIx\<close> (for fewer than 31 affected constraints, beyond which the 32-bit shift wraps).
\<close>

fun apply_inputs :: "nat \<Rightarrow> nat list \<Rightarrow> nat \<Rightarrow> Change \<Rightarrow> 'ctx Constraint list \<times> Prefix
    \<Rightarrow> bool \<times> 'ctx Constraint list \<times> Prefix" where
  "apply_inputs comboIx [] constraintIx input (cs, prefix) = (True, cs, prefix)"
| "apply_inputs comboIx (a # rest) constraintIx input (cs, prefix) =
     (let isIncluded = bit comboIx constraintIx;
          cs' = cs[a := (cs ! a)\<lparr>isInput := isIncluded\<rparr>]
      in if isIncluded then
           (case applyInput (cs' ! a) input prefix of
              (valid, prefix') \<Rightarrow>
                if valid = ApplyInput_fail then (False, cs', prefix')
                else apply_inputs comboIx rest (Suc constraintIx) input (cs', prefix'))
         else apply_inputs comboIx rest (Suc constraintIx) input (cs', prefix))"

text \<open>\<open>unapplyConstraint\<close> for every affected constraint.\<close>

definition unapplyConstraint :: "'ctx Constraint \<Rightarrow> Prefix \<Rightarrow> Prefix" where
  "unapplyConstraint constraint prefix = fold (\<lambda>offset p. set_slot p offset Undefined) (getRegisters constraint) prefix"

definition unapply_all :: "'ctx Constraint list \<Rightarrow> nat list \<Rightarrow> Prefix \<Rightarrow> Prefix" where
  "unapply_all cs affected prefix = fold (\<lambda>a p. unapplyConstraint (cs ! a) p) affected prefix"

text \<open>The loop over the combinations, \<open>comboIx\<close> running from \<open>2 ^ n - 1\<close> down to \<open>1\<close>.\<close>

fun combinations_loop :: "'ctx \<Rightarrow> nat \<Rightarrow> nat list \<Rightarrow> Change \<Rightarrow> int \<Rightarrow> jsval \<Rightarrow> bool \<times> 'ctx JoinState
    \<Rightarrow> error + (bool \<times> 'ctx JoinState)" where
  "combinations_loop context 0 affected input transaction rnd st = Inr st"
| "combinations_loop context (Suc k) affected input transaction rnd (didSomething, node, prefix, results) =
     (case apply_inputs (Suc k) affected 0 input (constraints node, prefix) of
        (shouldApply, cs', prefix') \<Rightarrow>
          (let node' = node\<lparr>constraints := cs'\<rparr>
           in case (if shouldApply
                    then (case applyCombination context input transaction rnd (node', prefix', results) of
                            Inl err \<Rightarrow> Inl err
                          | Inr (did, st') \<Rightarrow> Inr (did \<or> didSomething, st'))
                    else Inr (didSomething, node', prefix', results)) of
                Inl err \<Rightarrow> Inl err
              | Inr (didSomething', node'', prefix'', results'') \<Rightarrow>
                  combinations_loop context k affected input transaction rnd
                    (didSomething', node'', unapply_all (constraints node'') affected prefix'', results'')))"

definition reset_isInput :: "'ctx Constraint list \<Rightarrow> nat list \<Rightarrow> 'ctx Constraint list" where
  "reset_isInput cs affected = fold (\<lambda>a cs'. cs'[a := (cs' ! a)\<lparr>isInput := False\<rparr>]) affected cs"

definition JoinNode_exec :: "'ctx \<Rightarrow> Input \<Rightarrow> int \<Rightarrow> jsval \<Rightarrow> 'ctx JoinState \<Rightarrow> error + (bool \<times> 'ctx JoinState)" where
  "JoinNode_exec context input transaction rnd st =
     (case st of (node0, prefix, results) \<Rightarrow>
        (let node = node0\<lparr>inputCount := c_count (input_change input)\<rparr>
         in if input = BLOCK_REMOVE then
              mark_dormant (applyCombination context (input_change input) transaction rnd (node, prefix, results))
            else if isStatic node \<and> dormant node then Inr (False, (node, prefix, results))
            else if input = BLOCK_ADD then
              mark_dormant (applyCombination context (input_change input) transaction rnd (node, prefix, results))
            else
              (let affected = findAffectedConstraints (constraints node) 0 (input_change input)
               in mark_dormant
                    (case combinations_loop context (2 ^ length affected - 1) affected (input_change input)
                            transaction rnd (False, node, prefix, results) of
                       Inl err \<Rightarrow> Inl err
                     | Inr (didSomething, (node2, prefix2, results2)) \<Rightarrow>
                         Inr (didSomething,
                              (node2\<lparr>constraints := reset_isInput (constraints node2) affected\<rparr>,
                               prefix2, results2))))))"

text \<open>Running a join node: the method that \<open>node.exec\<close> names after the constructor.\<close>

definition JoinNode_run :: "'ctx \<Rightarrow> Input \<Rightarrow> int \<Rightarrow> jsval \<Rightarrow> 'ctx JoinState \<Rightarrow> error + (bool \<times> 'ctx JoinState)" where
  "JoinNode_run context input transaction rnd st =
     (case st of (node, prefix, results) \<Rightarrow>
        if exec_replaced node then downStreamExec context input transaction rnd st
        else JoinNode_exec context input transaction rnd st)"

section \<open>Example inputs\<close>

text \<open>Concrete nodes and constraints on which the theorems below are instantiated.  The
  context of the examples is the unit value.\<close>

definition example_static_node :: "unit JoinNode" where
  "example_static_node = new_JoinNode [MoveConstraint (Static 5) 0 False]"



subsection \<open>The flags of a join node\<close>

text \<open>Nothing below \<open>exec\<close> and \<open>downStreamExec\<close> writes \<open>isStatic\<close>, \<open>dormant\<close> or the choice of
  \<open>exec\<close>: Generic Join only writes the register arrays, and the combinations only the
  \<open>isInput\<close> marks of the constraints.\<close>

definition flags_kept :: "'ctx JoinNode \<Rightarrow> 'ctx JoinNode \<Rightarrow> bool" where
  "flags_kept node node' \<longleftrightarrow>
     isStatic node' = isStatic node \<and> dormant node' = dormant node \<and>
     exec_replaced node' = exec_replaced node"

definition keeps_flags :: "('ctx JoinState \<Rightarrow> error + 'ctx JoinState) \<Rightarrow> bool" where
  "keeps_flags f \<longleftrightarrow> (\<forall>st st'. f st = Inr st' \<longrightarrow> flags_kept (fst st) (fst st'))"

section \<open>Transactions\<close>

subsection \<open>Sorting and collapsing changes\<close>




text \<open>
  \<open>Array.prototype.sort\<close> with a comparison function: \<open>a\<close> goes after \<open>b\<close> when the function
  returns a value above zero, and \<open>NaN\<close> counts as zero.  The sort is stable, so on a
  comparison function that is an ordering every implementation returns the array of the
  insertion sort below.
\<close>

fun insert_by :: "('a \<Rightarrow> 'a \<Rightarrow> jsval) \<Rightarrow> 'a \<Rightarrow> 'a list \<Rightarrow> 'a list" where
  "insert_by cmp x [] = [x]"
| "insert_by cmp x (y # ys) = (if js_gt (cmp x y) (Num 0) then y # insert_by cmp x ys else x # y # ys)"














subsection \<open>The transaction and what surrounds it\<close>









text \<open>
  What a transaction works on besides its own fields is a value of a type \<open>'w\<close>: the
  indexes of the evaluation context and the state of the nodes of the blocks.  The module
  \<open>indexes\<close> and the nodes of a block are parameters here.  The execution of a block on an
  input is a sequence of calls of \<open>output\<close>, \<open>commit\<close> and \<open>export\<close>, the only methods of the
  transaction that a node calls, which ends by returning or by throwing; \<open>output\<close> hands
  the context to the distinct index, and the block goes on from the context it gets back.
\<close>

datatype 'w Running =
  Returns 'w
| Throws error
| Outputs 'w Change "'w \<Rightarrow> 'w Running"
| Commits Change "'w Running"
| Exports int Change "'w Running"






subsection \<open>Preparing a round\<close>






subsection \<open>The evaluation loop\<close>





subsection \<open>Exporting\<close>













text \<open>
  A round of \<open>-Infinity\<close> would keep the loop of \<open>prepareRound\<close> from ever reaching
  \<open>maxRound\<close>.  The rounds of a transaction are in order when neither its current round, nor
  the round of a change in \<open>changes\<close> or in \<open>roundChanges\<close> is \<open>-Infinity\<close>.
\<close>

definition rounds_in_order :: "Change list \<Rightarrow> bool" where
  "rounds_in_order chs \<longleftrightarrow> list_all (\<lambda>c. c_round c \<noteq> NegInf) chs"




subsection \<open>An example transaction\<close>





subsection \<open>Exported multiplicities in the words of the specification\<close>













section \<open>Properties of the interner\<close>

lemma coll_get_simps [simp]:
  "coll_get (s\<lparr>IDs := x\<rparr>) v = coll_get s v"
  "coll_get (s\<lparr>IDRefCount := y\<rparr>) v = coll_get s v"
  "coll_get (s\<lparr>IDFreeList := z\<rparr>) v = coll_get s v"
  "coll_get (s\<lparr>currentID := w\<rparr>) v = coll_get s v"
  by (simp_all add: coll_get_def split: RawValue.splits)

lemma coll_set_fields [simp]:
  "IDs (coll_set s v i) = IDs s"
  "IDRefCount (coll_set s v i) = IDRefCount s"
  "IDFreeList (coll_set s v i) = IDFreeList s"
  "currentID (coll_set s v i) = currentID s"
  by (simp_all add: coll_set_def split: RawValue.splits)

lemma coll_get_set: "coll_get (coll_set s v i) w = (if w = v then i else coll_get s w)"
  by (cases v; cases w) (simp_all add: coll_get_def coll_set_def)

lemma inv_get_IDs: "interner_inv s \<Longrightarrow> coll_get s v = Some i \<Longrightarrow> IDs s i = Some v"
  unfolding interner_inv_def by blast

lemma inv_IDs_get: "interner_inv s \<Longrightarrow> IDs s i = Some v \<Longrightarrow> coll_get s v = Some i"
  unfolding interner_inv_def by blast

lemma inv_free: "interner_inv s \<Longrightarrow> i \<in> set (IDFreeList s) \<Longrightarrow> IDs s i = None \<and> i < currentID s"
  unfolding interner_inv_def by blast

lemma inv_top: "interner_inv s \<Longrightarrow> currentID s \<le> i \<Longrightarrow> IDs s i = None"
  unfolding interner_inv_def by blast

lemma inv_distinct: "interner_inv s \<Longrightarrow> distinct (IDFreeList s)"
  unfolding interner_inv_def by blast

lemma inv_IDRefCount_eq: "interner_inv (s\<lparr>IDRefCount := r\<rparr>) = interner_inv s"
  by (simp add: interner_inv_def)

lemma inv_IDRefCount: "interner_inv s \<Longrightarrow> interner_inv (s\<lparr>IDRefCount := r\<rparr>)"
  by (simp only: inv_IDRefCount_eq)

lemma inv_new: "interner_inv new_Interner"
  by (simp add: interner_inv_def new_Interner_def coll_get_def split: RawValue.splits)

lemma last_notin_butlast: "distinct xs \<Longrightarrow> xs \<noteq> [] \<Longrightarrow> last xs \<notin> set (butlast xs)"
  by (induction xs) (auto dest: in_set_butlastD)

lemma getFreeID_cases:
  "getFreeID s = (x, s1) \<Longrightarrow>
     (x = currentID s \<and> s1 = s\<lparr>currentID := currentID s + 1\<rparr> \<and> IDFreeList s = []) \<or>
     (x = currentID s \<and> IDFreeList s \<noteq> [] \<and> last (IDFreeList s) = 0 \<and>
        s1 = s\<lparr>IDFreeList := butlast (IDFreeList s), currentID := currentID s + 1\<rparr>) \<or>
     (x = last (IDFreeList s) \<and> IDFreeList s \<noteq> [] \<and> s1 = s\<lparr>IDFreeList := butlast (IDFreeList s)\<rparr>)"
  unfolding getFreeID_def Let_def
  by (cases "IDFreeList s") (auto split: if_splits)

lemma getFreeID_props:
  assumes "interner_inv s" "getFreeID s = (x, s1)"
  shows "IDs s x = None" "x < currentID s1" "currentID s \<le> currentID s1"
    "set (IDFreeList s1) \<subseteq> set (IDFreeList s) - {x}" "distinct (IDFreeList s1)"
    "IDs s1 = IDs s" "strings s1 = strings s" "numbers s1 = numbers s"
proof -
  note fl = inv_free[OF assms(1)] and top = inv_top[OF assms(1)] and dist = inv_distinct[OF assms(1)]
  have sub: "set (butlast (IDFreeList s)) \<subseteq> set (IDFreeList s)"
    by (auto dest: in_set_butlastD)
  have db: "distinct (butlast (IDFreeList s))" using dist by (rule distinct_butlast)
  have cur: "currentID s \<notin> set (IDFreeList s)" using fl by force
  have topc: "IDs s (currentID s) = None" using top by simp
  consider
    (a) "x = currentID s" "s1 = s\<lparr>currentID := currentID s + 1\<rparr>" "IDFreeList s = []"
  | (b) "x = currentID s" "IDFreeList s \<noteq> []"
        "s1 = s\<lparr>IDFreeList := butlast (IDFreeList s), currentID := currentID s + 1\<rparr>"
  | (c) "x = last (IDFreeList s)" "IDFreeList s \<noteq> []" "s1 = s\<lparr>IDFreeList := butlast (IDFreeList s)\<rparr>"
    using getFreeID_cases[OF assms(2)] by blast
  then have "IDs s x = None \<and> x < currentID s1 \<and> currentID s \<le> currentID s1 \<and>
      set (IDFreeList s1) \<subseteq> set (IDFreeList s) - {x} \<and> distinct (IDFreeList s1) \<and>
      IDs s1 = IDs s \<and> strings s1 = strings s \<and> numbers s1 = numbers s"
  proof cases
    case a
    then show ?thesis using topc by simp
  next
    case b
    then show ?thesis using topc sub db cur by auto
  next
    case c
    have lastin: "last (IDFreeList s) \<in> set (IDFreeList s)" using c(2) by simp
    have nb: "last (IDFreeList s) \<notin> set (butlast (IDFreeList s))"
      using dist c(2) by (rule last_notin_butlast)
    show ?thesis using c(1,3) fl[OF lastin] sub db nb by auto
  qed
  then show "IDs s x = None" "x < currentID s1" "currentID s \<le> currentID s1"
    "set (IDFreeList s1) \<subseteq> set (IDFreeList s) - {x}" "distinct (IDFreeList s1)"
    "IDs s1 = IDs s" "strings s1 = strings s" "numbers s1 = numbers s"
    by simp_all
qed

lemma inv_intern:
  assumes "interner_inv s"
  shows "interner_inv (snd (intern s v))"
proof (cases "coll_get s v")
  case (Some found)
  then have "snd (intern s v) = s\<lparr>IDRefCount := (IDRefCount s)(found := map_option (\<lambda>c. c + 1) (IDRefCount s found))\<rparr>"
    by (simp add: intern_def)
  then show ?thesis using inv_IDRefCount[OF assms] by simp
next
  case None
  obtain x s1 where g: "getFreeID s = (x, s1)" by (cases "getFreeID s")
  note p = getFreeID_props[OF assms g]
  have cg1: "\<And>w. coll_get s1 w = coll_get s w"
    using p(7,8) by (simp add: coll_get_def split: RawValue.splits)
  define s4 where "s4 = (coll_set s1 v (Some x))\<lparr>IDs := (IDs s1)(x \<mapsto> v), IDRefCount := (IDRefCount s1)(x \<mapsto> 1)\<rparr>"
  have eq: "snd (intern s v) = s4"
    using None g by (simp add: intern_def s4_def Let_def)
  have ids: "IDs s4 = (IDs s)(x \<mapsto> v)" by (simp add: s4_def p(6))
  have cg: "\<And>w. coll_get s4 w = (if w = v then Some x else coll_get s w)"
    by (simp add: s4_def coll_get_set cg1)
  have fl4: "IDFreeList s4 = IDFreeList s1" "currentID s4 = currentID s1" by (simp_all add: s4_def)
  note i1 = inv_get_IDs[OF assms] and i2 = inv_IDs_get[OF assms]
    and fl = inv_free[OF assms] and top = inv_top[OF assms]
  have "interner_inv s4"
    unfolding interner_inv_def
  proof (intro conjI allI impI)
    fix w i assume "coll_get s4 w = Some i"
    then show "IDs s4 i = Some w"
      using i1 p(1) by (auto simp: cg ids split: if_splits)
  next
    fix w i assume "IDs s4 i = Some w"
    then show "coll_get s4 w = Some i"
      using i2 None by (auto simp: cg ids split: if_splits)
  next
    fix i assume a: "i \<in> set (IDFreeList s4)"
    then have "i \<in> set (IDFreeList s)" "i \<noteq> x" using p(4) fl4 by auto
    then show "IDs s4 i = None" using fl by (simp add: ids)
    show "i < currentID s4" using \<open>i \<in> set (IDFreeList s)\<close> fl p(3) fl4 by force
  next
    fix i assume "currentID s4 \<le> i"
    then show "IDs s4 i = None" using top p(2,3) fl4 by (auto simp: ids)
  next
    show "distinct (IDFreeList s4)" using p(5) fl4 by simp
  qed
  then show ?thesis by (simp add: eq)
qed

lemma inv_reference: "interner_inv s \<Longrightarrow> interner_inv (reference s i)"
  unfolding reference_def by (rule inv_IDRefCount)

lemma release_unfold:
  "release s i =
     (if IDRefCount s i = None \<or> IDRefCount s i = Some 1 then
        (case IDs s i of
           Some v \<Rightarrow> (coll_set (s\<lparr>IDRefCount := (IDRefCount s)(i := map_option (\<lambda>c. c - 1) (IDRefCount s i))\<rparr>) v None)
                       \<lparr>IDs := (IDs s)(i := None), IDFreeList := IDFreeList s @ [i]\<rparr>
         | None \<Rightarrow> s\<lparr>IDRefCount := (IDRefCount s)(i := map_option (\<lambda>c. c - 1) (IDRefCount s i)),
                      strings := (strings s)(''undefined'' := None),
                      IDs := (IDs s)(i := None), IDFreeList := IDFreeList s @ [i]\<rparr>)
      else s\<lparr>IDRefCount := (IDRefCount s)(i := map_option (\<lambda>c. c - 1) (IDRefCount s i))\<rparr>)"
  by (cases "IDRefCount s i"; cases "IDs s i") (simp_all add: release_def Let_def)

lemma inv_release:
  assumes "interner_inv s" "IDs s i \<noteq> None"
  shows "interner_inv (release s i)"
proof -
  obtain v where v: "IDs s i = Some v" using assms(2) by auto
  note i1 = inv_get_IDs[OF assms(1)] and i2 = inv_IDs_get[OF assms(1)]
    and fl = inv_free[OF assms(1)] and top = inv_top[OF assms(1)] and dist = inv_distinct[OF assms(1)]
  define s1 where "s1 = s\<lparr>IDRefCount := (IDRefCount s)(i := map_option (\<lambda>c. c - 1) (IDRefCount s i))\<rparr>"
  have inv1: "interner_inv s1" unfolding s1_def using assms(1) by (rule inv_IDRefCount)
  show ?thesis
  proof (cases "IDRefCount s i = None \<or> IDRefCount s i = Some 1")
    case False
    then have "release s i = s1" by (simp only: release_unfold s1_def if_False)
    then show ?thesis using inv1 by simp
  next
    case True
    define s3 where "s3 = (coll_set s1 v None)\<lparr>IDs := (IDs s)(i := None), IDFreeList := IDFreeList s @ [i]\<rparr>"
    have eq: "release s i = s3"
      using True v by (simp add: release_unfold s3_def s1_def)
    have cg: "\<And>w. coll_get s3 w = (if w = v then None else coll_get s w)"
      by (simp add: s3_def coll_get_set s1_def)
    have ids: "IDs s3 = (IDs s)(i := None)" by (simp add: s3_def)
    have f3: "IDFreeList s3 = IDFreeList s @ [i]" "currentID s3 = currentID s"
      by (simp_all add: s3_def s1_def)
    have inotin: "i \<notin> set (IDFreeList s)" using fl v by force
    have ilt: "i < currentID s" using top[of i] v by force
    have "interner_inv s3"
      unfolding interner_inv_def
    proof (intro conjI allI impI)
      fix w j assume "coll_get s3 w = Some j"
      then have "w \<noteq> v" "coll_get s w = Some j" by (auto simp: cg split: if_splits)
      then show "IDs s3 j = Some w" using i1[of w j] v by (auto simp: ids)
    next
      fix w j assume "IDs s3 j = Some w"
      then have "j \<noteq> i" "IDs s j = Some w" by (auto simp: ids split: if_splits)
      then show "coll_get s3 w = Some j" using i2[of j w] i2[OF v] by (auto simp: cg)
    next
      fix j assume "j \<in> set (IDFreeList s3)"
      then show "IDs s3 j = None" "j < currentID s3" using fl ilt by (auto simp: f3 ids)
    next
      fix j assume "currentID s3 \<le> j"
      then show "IDs s3 j = None" using top by (simp add: f3 ids)
    next
      show "distinct (IDFreeList s3)" using dist inotin by (simp add: f3)
    qed
    then show ?thesis by (simp add: eq)
  qed
qed

lemma reachable_inv: "reachable s \<Longrightarrow> interner_inv s"
  by (induction rule: reachable.induct) (simp_all add: inv_new inv_intern inv_reference inv_release)

lemma intern_get: "intern s v = (i, s') \<Longrightarrow> coll_get s' v = Some i"
  by (cases "coll_get s v"; cases "getFreeID s")
     (auto simp: intern_def Let_def coll_get_set)

lemma intern_keeps:
  assumes "interner_inv s" "intern s v = (i, s')" "IDs s j = Some w"
  shows "IDs s' j = Some w"
proof (cases "coll_get s v")
  case (Some found)
  then show ?thesis using assms by (auto simp: intern_def)
next
  case None
  obtain x s1 where g: "getFreeID s = (x, s1)" by (cases "getFreeID s")
  note p = getFreeID_props[OF assms(1) g]
  have "IDs s' = (IDs s)(x \<mapsto> v)"
    using None g assms(2) p(6) by (auto simp: intern_def Let_def)
  moreover have "x \<noteq> j" using p(1) assms(3) by auto
  ultimately show ?thesis using assms(3) by simp
qed

text \<open>
  Claim C3.  In every reachable interner state, interning a value \<open>v1\<close> and then a value
  \<open>v2\<close> gives IDs that \<open>reverse\<close> maps back to \<open>v1\<close> and \<open>v2\<close> (the first ID still
  maps to \<open>v1\<close> after the second call), and the two IDs are equal exactly when the two
  values are equal.  A number and a string are different values (\<open>Numb x \<noteq> Str y\<close>),
  so they never receive the same ID.
\<close>

theorem intern_reverse_injective:
  assumes "reachable s" "intern s v1 = (i1, s1)" "intern s1 v2 = (i2, s2)"
  shows "reverse s1 i1 = Some v1 \<and> reverse s2 i2 = Some v2 \<and> reverse s2 i1 = Some v1 \<and>
         (i1 = i2 \<longleftrightarrow> v1 = v2)"
proof -
  have inv0: "interner_inv s" using assms(1) by (rule reachable_inv)
  have inv1: "interner_inv s1" using inv_intern[OF inv0, of v1] assms(2) by simp
  have inv2: "interner_inv s2" using inv_intern[OF inv1, of v2] assms(3) by simp
  have r1: "IDs s1 i1 = Some v1"
    using inv1 intern_get[OF assms(2)] by (rule inv_get_IDs)
  have r2: "IDs s2 i2 = Some v2"
    using inv2 intern_get[OF assms(3)] by (rule inv_get_IDs)
  have r3: "IDs s2 i1 = Some v1" using intern_keeps[OF inv1 assms(3) r1] .
  have "v1 = v2 \<Longrightarrow> i1 = i2"
    using intern_get[OF assms(2)] assms(3) by (auto simp: intern_def)
  moreover have "i1 = i2 \<Longrightarrow> v1 = v2" using r2 r3 by simp
  ultimately show ?thesis using r1 r2 r3 by (auto simp: reverse_def)
qed


theorem intern_reverse_injective_witness:
  "reachable new_Interner \<and>
   intern new_Interner (Numb 1) = (0, snd (intern new_Interner (Numb 1))) \<and>
   intern (snd (intern new_Interner (Numb 1))) (Str ''1'') =
     (1, snd (intern (snd (intern new_Interner (Numb 1))) (Str ''1''))) \<and>
   reverse (snd (intern new_Interner (Numb 1))) 0 = Some (Numb 1) \<and>
   reverse (snd (intern (snd (intern new_Interner (Numb 1))) (Str ''1''))) 1 = Some (Str ''1'') \<and>
   reverse (snd (intern (snd (intern new_Interner (Numb 1))) (Str ''1''))) 0 = Some (Numb 1) \<and>
   ((0::int) = 1) = (Numb 1 = Str ''1'')"
proof -
  have a: "intern new_Interner (Numb 1) = (0, snd (intern new_Interner (Numb 1)))"
    by (simp add: intern_def new_Interner_def coll_get_def getFreeID_def coll_set_def)
  have b: "intern (snd (intern new_Interner (Numb 1))) (Str ''1'') =
      (1, snd (intern (snd (intern new_Interner (Numb 1))) (Str ''1'')))"
    by (simp add: intern_def new_Interner_def coll_get_def getFreeID_def coll_set_def)
  show ?thesis
    using intern_reverse_injective[OF reach_new a b] a b reach_new by simp
qed

text \<open>
  Claim C9.  The claim says every ID handed out is positive and that live IDs are densely
  packed.  The counter starts at \<open>0\<close>, so the first value interned by a new interner gets
  the ID \<open>0\<close>.  After \<open>a\<close>, \<open>b\<close> are interned and the ID of \<open>a\<close> is released, the free list
  holds \<open>0\<close>; the next \<open>intern\<close> pops it, finds it falsy and takes the counter instead, so
  \<open>c\<close> gets the ID \<open>2\<close> and the ID \<open>0\<close> stays unused: the live IDs are \<open>1\<close> and \<open>2\<close>.
\<close>

theorem first_interned_ID_is_zero:
  "fst (intern new_Interner (Str ''a'')) = 0 \<and>
   (let s1 = snd (intern new_Interner (Str ''a''));
        s2 = snd (intern s1 (Str ''b''));
        s3 = release s2 0;
        (c, s4) = intern s3 (Str ''c'')
    in IDFreeList s3 = [0] \<and> c = 2 \<and> IDFreeList s4 = [] \<and>
       IDs s4 0 = None \<and> IDs s4 1 = Some (Str ''b'') \<and> IDs s4 2 = Some (Str ''c''))"
  by (simp add: intern_def new_Interner_def coll_get_def getFreeID_def coll_set_def
      release_def Let_def)

section \<open>Properties of the output nodes\<close>

lemma node_output_cases:
  "node_output cls c (binds, commits) = (binds @ [c], commits) \<or>
   node_output cls c (binds, commits) = (binds, commits @ [c])"
  by (cases cls) simp_all






section \<open>Properties of the join node: multiplicities\<close>

lemma js_gt_Num [simp]: "js_gt (Num i) (Num j) = (i > j)"
  by (simp add: js_gt_def)

lemma js_max_Num [simp]: "js_max (Num i) (Num j) = Num (max i j)"
  by (simp add: js_max_def)

lemma js_mul_Num [simp]: "js_mul (Num i) (Num j) = Num (i * j)"
  by (simp add: js_mul_def)















section \<open>Properties of the join node: Generic Join\<close>









section \<open>Properties of the join node: dormancy\<close>

lemma flags_kept_refl [simp]: "flags_kept node node"
  by (simp add: flags_kept_def)

lemma flags_kept_trans: "flags_kept a b \<Longrightarrow> flags_kept b c \<Longrightarrow> flags_kept a c"
  by (simp add: flags_kept_def)

lemma flags_kept_registerArrays [simp]: "flags_kept node (node\<lparr>registerArrays := x\<rparr>)"
  by (simp add: flags_kept_def)

lemma flags_kept_constraints [simp]: "flags_kept node (node\<lparr>constraints := x\<rparr>)"
  by (simp add: flags_kept_def)

lemma keeps_flagsD: "keeps_flags f \<Longrightarrow> f st = Inr st' \<Longrightarrow> flags_kept (fst st) (fst st')"
  unfolding keeps_flags_def by blast

lemma prefixToResults_keeps: "keeps_flags (prefixToResults context rnd)"
  unfolding keeps_flags_def
  by (auto simp: prefixToResults_def split: prod.splits sum.splits)

lemma try_candidate_keeps:
  assumes "keeps_flags nxt" "try_candidate context cs winner transaction rnd forRegs nxt st = Inr st'"
  shows "flags_kept (fst st) (fst st')"
proof (cases st)
  case (fields node prefix results)
  show ?thesis
  proof (cases "others_accept context cs 0 winner prefix transaction rnd forRegs")
    case True
    then have "nxt st = Inr st'" using assms(2) fields by (simp add: try_candidate_def)
    then show ?thesis using assms(1) by (rule keeps_flagsD[rotated])
  next
    case False
    then have "st' = st" using assms(2) fields by (simp add: try_candidate_def)
    then show ?thesis by simp
  qed
qed

lemma resultLoop_nested_keeps:
  assumes "keeps_flags nxt"
  shows "resultLoop_nested context cs winner transaction rnd forRegs nxt rs st = Inr st'
         \<Longrightarrow> flags_kept (fst st) (fst st')"
proof (induction rs arbitrary: st)
  case Nil
  then show ?case by simp
next
  case (Cons result rest)
  obtain node prefix results where st: "st = (node, prefix, results)" by (cases st)
  from Cons.prems obtain prefix' st1 where
    b: "bind_registers forRegs result 0 prefix = Inr prefix'"
    and t: "try_candidate context cs winner transaction rnd forRegs nxt (node, prefix', results) = Inr st1"
    and r: "resultLoop_nested context cs winner transaction rnd forRegs nxt rest st1 = Inr st'"
    unfolding st by (auto split: sum.splits)
  have "flags_kept node (fst st1)" using try_candidate_keeps[OF assms t] by simp
  moreover have "flags_kept (fst st1) (fst st')" using Cons.IH[OF r] .
  ultimately show ?case unfolding st by (auto intro: flags_kept_trans)
qed

lemma resultLoop_flat_keeps:
  assumes "keeps_flags nxt"
  shows "resultLoop_flat context cs winner transaction rnd forRegs nxt xs st = Inr st'
         \<Longrightarrow> flags_kept (fst st) (fst st')"
proof (induction xs arbitrary: st)
  case Nil
  then show ?case by simp
next
  case (Cons result rest)
  obtain node prefix results where st: "st = (node, prefix, results)" by (cases st)
  from Cons.prems obtain offset st1 where
    t: "try_candidate context cs winner transaction rnd forRegs nxt
          (node, set_slot prefix offset (js_unary_plus result), results) = Inr st1"
    and r: "resultLoop_flat context cs winner transaction rnd forRegs nxt rest st1 = Inr st'"
    unfolding st by (auto split: sum.splits list.splits option.splits)
  have "flags_kept node (fst st1)" using try_candidate_keeps[OF assms t] by simp
  moreover have "flags_kept (fst st1) (fst st')" using Cons.IH[OF r] .
  ultimately show ?case unfolding st by (auto intro: flags_kept_trans)
qed

lemma genericJoin_step_cases:
  assumes "genericJoin_step context transaction rnd roundIx nxt (node, prefix, results) = Inr st'"
  shows "st' = (node, prefix, results) \<or>
         (\<exists>winner regs ra st1.
             ((\<exists>rs. resultLoop_nested context (constraints node) winner transaction rnd regs nxt rs
                       (node\<lparr>registerArrays := ra\<rparr>, prefix, results) = Inr st1) \<or>
              (\<exists>xs. resultLoop_flat context (constraints node) winner transaction rnd regs nxt xs
                       (node\<lparr>registerArrays := ra\<rparr>, prefix, results) = Inr st1)) \<and>
             fst st' = fst st1)"
proof (cases "bestProposal_loop context (constraints node) prefix transaction rnd 0 emptyProposal")
  case None
  then show ?thesis using assms unfolding genericJoin_step_def by (auto split: if_splits)
next
  case (Some best)
  show ?thesis
  proof (cases "skip best")
    case True
    then show ?thesis using assms Some unfolding genericJoin_step_def by (auto split: if_splits)
  next
    case False
    from assms Some False obtain p where p: "proposer best = Some p"
      unfolding genericJoin_step_def by (auto split: if_splits option.splits)
    let ?regs = "moveArray (forRegisters best) (registerArrays node ! (roundIx - 1))"
    let ?node = "node\<lparr>registerArrays := (registerArrays node)[roundIx - 1 := ?regs]\<rparr>"
    show ?thesis
    proof (cases "resolveProposal (constraints node ! p) context prefix best transaction rnd")
      case (Flat xs)
      from assms Some False p Flat obtain st1 where
        "resultLoop_flat context (constraints node) (Some p) transaction rnd ?regs nxt xs
           (?node, prefix, results) = Inr st1" "fst st' = fst st1"
        unfolding genericJoin_step_def
        by (auto simp: Let_def split: if_splits sum.splits prod.splits)
      then show ?thesis by blast
    next
      case (Nested rs)
      from assms Some False p Nested obtain st1 where
        "resultLoop_nested context (constraints node) (Some p) transaction rnd ?regs nxt rs
           (?node, prefix, results) = Inr st1" "fst st' = fst st1"
        unfolding genericJoin_step_def
        by (auto simp: Let_def split: if_splits sum.splits prod.splits)
      then show ?thesis by blast
    qed
  qed
qed

lemma genericJoin_step_keeps:
  assumes "keeps_flags nxt"
  shows "keeps_flags (genericJoin_step context transaction rnd roundIx nxt)"
  unfolding keeps_flags_def
proof (intro allI impI)
  fix st st' :: "'a JoinState"
  assume run: "genericJoin_step context transaction rnd roundIx nxt st = Inr st'"
  obtain node prefix results where st: "st = (node, prefix, results)" by (cases st)
  from genericJoin_step_cases[OF run[unfolded st]]
  show "flags_kept (fst st) (fst st')"
  proof
    assume "st' = (node, prefix, results)"
    then show ?thesis by (simp add: st)
  next
    assume "\<exists>winner regs ra st1.
             ((\<exists>rs. resultLoop_nested context (constraints node) winner transaction rnd regs nxt rs
                       (node\<lparr>registerArrays := ra\<rparr>, prefix, results) = Inr st1) \<or>
              (\<exists>xs. resultLoop_flat context (constraints node) winner transaction rnd regs nxt xs
                       (node\<lparr>registerArrays := ra\<rparr>, prefix, results) = Inr st1)) \<and>
             fst st' = fst st1"
    then obtain ra st1 where "flags_kept (node\<lparr>registerArrays := ra\<rparr>) (fst st1)" "fst st' = fst st1"
      using resultLoop_nested_keeps[OF assms] resultLoop_flat_keeps[OF assms] by fastforce
    then show ?thesis by (simp add: st flags_kept_def)
  qed
qed

lemma genericJoin_keeps: "keeps_flags (genericJoin context transaction rnd k)"
proof (induction k)
  case 0
  show ?case by (simp add: keeps_flags_def)
next
  case (Suc k)
  have "keeps_flags (\<lambda>st'. if Suc k = 1 then prefixToResults context rnd st'
                             else genericJoin context transaction rnd k st')"
    unfolding keeps_flags_def
  proof (intro allI impI)
    fix st st' :: "'a JoinState"
    assume a: "(if Suc k = 1 then prefixToResults context rnd st
                else genericJoin context transaction rnd k st) = Inr st'"
    show "flags_kept (fst st) (fst st')"
    proof (cases "k = 0")
      case True
      then have "prefixToResults context rnd st = Inr st'" using a by simp
      then show ?thesis using prefixToResults_keeps by (rule keeps_flagsD[rotated])
    next
      case False
      then have "genericJoin context transaction rnd k st = Inr st'" using a by simp
      then show ?thesis using Suc by (rule keeps_flagsD[rotated])
    qed
  qed
  from genericJoin_step_keeps[OF this]
  show ?case by (simp add: keeps_flags_def)
qed

lemma applyCombination_keeps:
  assumes "applyCombination context input transaction rnd st = Inr (d, st')"
  shows "flags_kept (fst st) (fst st')"
proof -
  obtain node prefix results where st: "st = (node, prefix, results)" by (cases st)
  from assms consider "st' = st"
    | "prefixToResults context rnd st = Inr st'"
    | k where "genericJoin context transaction rnd k st = Inr st'"
    unfolding st applyCombination_def
    by (auto simp: Let_def split: if_splits sum.splits)
  then show ?thesis
  proof cases
    case 1
    then show ?thesis by simp
  next
    case 2
    then show ?thesis using prefixToResults_keeps by (rule keeps_flagsD[rotated])
  next
    case 3
    then show ?thesis using genericJoin_keeps by (rule keeps_flagsD[rotated])
  qed
qed

lemma combinations_loop_keeps:
  "combinations_loop context k affected input transaction rnd (d, node, prefix, results)
     = Inr (d', node', prefix', results') \<Longrightarrow> flags_kept node node'"
proof (induction k arbitrary: d node prefix results)
  case 0
  then show ?case by simp
next
  case (Suc k)
  obtain shouldApply cs1 prefix1 where ai:
    "apply_inputs (Suc k) affected 0 input (constraints node, prefix) = (shouldApply, cs1, prefix1)"
    by (cases "apply_inputs (Suc k) affected 0 input (constraints node, prefix)")
  let ?node1 = "node\<lparr>constraints := cs1\<rparr>"
  from Suc.prems ai obtain d2 node2 prefix2 results2 where
    step: "(shouldApply \<and> (\<exists>did. applyCombination context input transaction rnd (?node1, prefix1, results)
                                    = Inr (did, node2, prefix2, results2)))
           \<or> (\<not> shouldApply \<and> node2 = ?node1)"
    and rest: "combinations_loop context k affected input transaction rnd
                 (d2, node2, unapply_all (constraints node2) affected prefix2, results2)
               = Inr (d', node', prefix', results')"
    by (auto simp: Let_def split: if_splits sum.splits prod.splits)
  have "flags_kept ?node1 node2"
    using step applyCombination_keeps by fastforce
  then have "flags_kept node node2" by (simp add: flags_kept_def)
  moreover have "flags_kept node2 node'" using Suc.IH[OF rest] .
  ultimately show ?case by (rule flags_kept_trans)
qed

text \<open>What a run does to the three flags: only \<open>dormant\<close> can change, and only from false to
  true, when the node is static and the run did something.\<close>

lemma mark_dormant_flags:
  assumes "mark_dormant r = Inr (d, node', prefix', results')"
  obtains node2 where "r = Inr (d, node2, prefix', results')"
    "isStatic node' = isStatic node2" "exec_replaced node' = exec_replaced node2"
    "dormant node' = (dormant node2 \<or> (isStatic node2 \<and> d))"
proof (cases r)
  case (Inl err)
  then show ?thesis using assms by (simp add: mark_dormant_def)
next
  case (Inr x)
  obtain d2 node2 prefix2 results2 where x: "x = (d2, node2, prefix2, results2)" by (cases x) auto
  have eq: "d2 = d" "prefix2 = prefix'" "results2 = results'"
    "node' = (if isStatic node2 \<and> d then node2\<lparr>dormant := True\<rparr> else node2)"
    using assms Inr x by (auto simp: mark_dormant_def)
  show ?thesis
  proof (rule that[of node2])
    show "r = Inr (d, node2, prefix', results')" using Inr x eq by simp
    show "isStatic node' = isStatic node2" using eq(4) by simp
    show "exec_replaced node' = exec_replaced node2" using eq(4) by simp
    show "dormant node' = (dormant node2 \<or> (isStatic node2 \<and> d))" using eq(4) by auto
  qed
qed

lemma downStreamExec_flags:
  assumes "downStreamExec context input transaction rnd (node, prefix, results)
             = Inr (d, node', prefix', results')"
  shows "isStatic node' = isStatic node \<and> exec_replaced node' = exec_replaced node \<and>
         dormant node' = (dormant node \<or> (isStatic node \<and> d))"
proof (cases "isStatic node \<and> dormant node")
  case True
  then show ?thesis using assms by (auto simp: downStreamExec_def)
next
  case False
  let ?node1 = "node\<lparr>inputCount := (if prefixCount prefix \<noteq> Undefined then prefixCount prefix
                                       else c_count (input_change input))\<rparr>"
  let ?inputRound = "if prefixRound prefix \<noteq> Undefined then prefixRound prefix
                     else c_round (input_change input)"
  have "mark_dormant (applyCombination context (input_change input) transaction ?inputRound
          (?node1, prefix, results)) = Inr (d, node', prefix', results')"
    using assms False by (simp add: downStreamExec_def Let_def)
  then obtain node2 where
    ac: "applyCombination context (input_change input) transaction ?inputRound (?node1, prefix, results)
           = Inr (d, node2, prefix', results')"
    and n: "isStatic node' = isStatic node2" "exec_replaced node' = exec_replaced node2"
      "dormant node' = (dormant node2 \<or> (isStatic node2 \<and> d))"
    by (rule mark_dormant_flags)
  have "flags_kept ?node1 node2" using applyCombination_keeps[OF ac] by simp
  then show ?thesis using n by (auto simp: flags_kept_def)
qed

lemma JoinNode_exec_flags:
  assumes "JoinNode_exec context input transaction rnd (node, prefix, results)
             = Inr (d, node', prefix', results')"
  shows "isStatic node' = isStatic node \<and> exec_replaced node' = exec_replaced node \<and>
         dormant node' = (dormant node \<or> (isStatic node \<and> d))"
proof -
  let ?node1 = "node\<lparr>inputCount := c_count (input_change input)\<rparr>"
  let ?affected = "findAffectedConstraints (constraints node) 0 (input_change input)"
  have combo: ?thesis
    if "mark_dormant (applyCombination context (input_change input) transaction rnd (?node1, prefix, results))
          = Inr (d, node', prefix', results')"
  proof -
    from that obtain node2 where
      ac: "applyCombination context (input_change input) transaction rnd (?node1, prefix, results)
             = Inr (d, node2, prefix', results')"
      and n: "isStatic node' = isStatic node2" "exec_replaced node' = exec_replaced node2"
        "dormant node' = (dormant node2 \<or> (isStatic node2 \<and> d))"
      by (rule mark_dormant_flags)
    have "flags_kept ?node1 node2" using applyCombination_keeps[OF ac] by simp
    then show ?thesis using n by (auto simp: flags_kept_def)
  qed
  show ?thesis
  proof (cases "input = BLOCK_REMOVE")
    case True
    then show ?thesis using assms combo by (simp add: JoinNode_exec_def Let_def)
  next
    case nr: False
    show ?thesis
    proof (cases "isStatic node \<and> dormant node")
      case True
      then show ?thesis using assms nr by (auto simp: JoinNode_exec_def Let_def)
    next
      case nd: False
      show ?thesis
      proof (cases "input = BLOCK_ADD")
        case True
        then show ?thesis using assms nd combo by (simp add: JoinNode_exec_def Let_def)
      next
        case na: False
        let ?loop = "combinations_loop context (2 ^ length ?affected - 1) ?affected (input_change input)
                       transaction rnd (False, ?node1, prefix, results)"
        have md: "mark_dormant
              (case ?loop of
                 Inl err \<Rightarrow> Inl err
               | Inr (didSomething, (node2, prefix2, results2)) \<Rightarrow>
                   Inr (didSomething,
                        (node2\<lparr>constraints := reset_isInput (constraints node2) ?affected\<rparr>,
                         prefix2, results2)))
            = Inr (d, node', prefix', results')"
          using assms nr nd na by (simp add: JoinNode_exec_def Let_def)
        then obtain node3 where
          l3: "(case ?loop of
                 Inl err \<Rightarrow> Inl err
               | Inr (didSomething, (node2, prefix2, results2)) \<Rightarrow>
                   Inr (didSomething,
                        (node2\<lparr>constraints := reset_isInput (constraints node2) ?affected\<rparr>,
                         prefix2, results2))) = Inr (d, node3, prefix', results')"
          and n: "isStatic node' = isStatic node3" "exec_replaced node' = exec_replaced node3"
            "dormant node' = (dormant node3 \<or> (isStatic node3 \<and> d))"
          by (rule mark_dormant_flags)
        from l3 obtain node2 prefix2 where
          l2: "?loop = Inr (d, node2, prefix2, results')"
          and n3: "node3 = node2\<lparr>constraints := reset_isInput (constraints node2) ?affected\<rparr>"
          by (cases ?loop) auto
        have "flags_kept ?node1 node2" using combinations_loop_keeps[OF l2] .
        then show ?thesis using n n3 by (auto simp: flags_kept_def)
      qed
    qed
  qed
qed

lemma JoinNode_run_flags:
  assumes "JoinNode_run context input transaction rnd (node, prefix, results)
             = Inr (d, node', prefix', results')"
  shows "isStatic node' = isStatic node \<and> exec_replaced node' = exec_replaced node \<and>
         dormant node' = (dormant node \<or> (isStatic node \<and> d))"
proof (cases "exec_replaced node")
  case True
  then have "downStreamExec context input transaction rnd (node, prefix, results)
               = Inr (d, node', prefix', results')"
    using assms by (simp add: JoinNode_run_def)
  then show ?thesis by (rule downStreamExec_flags)
next
  case False
  then have "JoinNode_exec context input transaction rnd (node, prefix, results)
               = Inr (d, node', prefix', results')"
    using assms by (simp add: JoinNode_run_def)
  then show ?thesis by (rule JoinNode_exec_flags)
qed

text \<open>The constructor on constraints that are all move constraints with static sources.\<close>

lemma constructor_loop_static_moves:
  assumes "\<forall>c \<in> set cs. \<exists>src dst. kind c = MoveKind src dst \<and> Move_isStatic src"
  shows "snd (constructor_loop cs (regs, hasOnlyMoves, hasNoScans, onlyStatic))
           = (hasOnlyMoves, hasNoScans, onlyStatic)"
  using assms
proof (induction cs arbitrary: regs)
  case Nil
  show ?case by simp
next
  case (Cons c cs)
  then obtain src dst where k: "kind c = MoveKind src dst" "Move_isStatic src" by auto
  have "\<forall>c \<in> set cs. \<exists>src dst. kind c = MoveKind src dst \<and> Move_isStatic src"
    using Cons.prems by simp
  from Cons.IH[OF this] show ?case using k by (simp add: Let_def)
qed

lemma new_JoinNode_static_moves:
  assumes "\<forall>c \<in> set cs. \<exists>src dst. kind c = MoveKind src dst \<and> Move_isStatic src"
  shows "isStatic (new_JoinNode cs) \<and> exec_replaced (new_JoinNode cs) \<and> \<not> dormant (new_JoinNode cs)"
proof -
  obtain regs where "constructor_loop cs (([], [], 0), True, True, True) = (regs, True, True, True)"
    using constructor_loop_static_moves[OF assms, of "([], [], 0)" True True True]
    by (cases "constructor_loop cs (([], [], 0), True, True, True)") auto
  then show ?thesis by (simp add: new_JoinNode_def split: prod.splits)
qed

text \<open>
  Claim C8, as stated, says that \<open>BLOCK_REMOVE\<close> resets the dormancy of a static join node, so
  that a later \<open>BLOCK_ADD\<close> executes it again.  The node with the single constraint
  \<open>Move(5, [0])\<close> executes on a first \<open>BLOCK_ADD\<close> and becomes dormant; a \<open>BLOCK_REMOVE\<close>
  leaves it dormant, and the following \<open>BLOCK_ADD\<close> returns \<open>false\<close> and pushes nothing.
\<close>

theorem BLOCK_REMOVE_does_not_reset_dormancy:
  "(case JoinNode_run () BLOCK_ADD 1 (Num 0) (example_static_node, [Undefined, Undefined, Undefined], []) of
      Inl err \<Rightarrow> False
    | Inr (d1, node1, prefix1, results1) \<Rightarrow>
        d1 \<and> dormant node1 \<and> results1 = [[Num 5, Num 0, Num 1]] \<and>
        (case JoinNode_run () BLOCK_REMOVE 2 (Num 0) (node1, [Undefined, Undefined, Undefined], []) of
           Inl err \<Rightarrow> False
         | Inr (d2, node2, prefix2, results2) \<Rightarrow>
             dormant node2 \<and>
             (case JoinNode_run () BLOCK_ADD 3 (Num 0) (node2, [Undefined, Undefined, Undefined], []) of
                Inl err \<Rightarrow> False
              | Inr (d3, node3, prefix3, results3) \<Rightarrow> \<not> d3 \<and> results3 = [] \<and> dormant node3)))"
  by code_simp

text \<open>
  Claim C8, amended.  A join node whose constraints are all move constraints with static
  sources is static, is not dormant when it is built, and runs \<open>downStreamExec\<close>.  For every
  static node: a run that does something leaves the node dormant; once the node is dormant, a
  run for an ordinary input or for \<open>BLOCK_ADD\<close> returns \<open>false\<close> and leaves the prefix and the
  results as they are; and a dormant node stays dormant after every run, whatever the
  input, so that \<open>BLOCK_REMOVE\<close> does not reset dormancy.
\<close>

theorem static_JoinNode_dormancy:
  assumes "\<forall>c \<in> set cs. \<exists>src dst. kind c = MoveKind src dst \<and> Move_isStatic src"
  shows "isStatic (new_JoinNode cs) \<and> \<not> dormant (new_JoinNode cs) \<and> exec_replaced (new_JoinNode cs) \<and>
         (\<forall>(node :: 'a JoinNode) context input transaction rnd prefix results d node' prefix' results'.
            isStatic node \<longrightarrow>
            (JoinNode_run context input transaction rnd (node, prefix, results)
               = Inr (d, node', prefix', results') \<longrightarrow>
             isStatic node' \<and> (d \<longrightarrow> dormant node') \<and> (dormant node \<longrightarrow> dormant node')) \<and>
            (dormant node \<and> input \<noteq> BLOCK_REMOVE \<longrightarrow>
             JoinNode_run context input transaction rnd (node, prefix, results)
               = Inr (False,
                      (if exec_replaced node then node
                       else node\<lparr>inputCount := c_count (input_change input)\<rparr>),
                      prefix, results)))"
proof -
  have run: "isStatic node' \<and> (d \<longrightarrow> dormant node') \<and> (dormant node \<longrightarrow> dormant node')"
    if "isStatic node"
      "JoinNode_run ctx input transaction rnd (node, prefix, results) = Inr (d, node', prefix', results')"
    for node :: "'a JoinNode" and ctx input transaction rnd prefix results d node' prefix' results'
    using JoinNode_run_flags[OF that(2)] that(1) by simp
  have dorm: "JoinNode_run ctx input transaction rnd (node, prefix, results)
               = Inr (False,
                      (if exec_replaced node then node
                       else node\<lparr>inputCount := c_count (input_change input)\<rparr>),
                      prefix, results)"
    if "isStatic node" "dormant node" "input \<noteq> BLOCK_REMOVE"
    for node :: "'a JoinNode" and ctx input transaction rnd prefix results
    using that by (simp add: JoinNode_run_def downStreamExec_def JoinNode_exec_def Let_def)
  show ?thesis
    using new_JoinNode_static_moves[OF assms] run dorm by blast
qed

theorem static_JoinNode_dormancy_witness:
  "isStatic example_static_node \<and> \<not> dormant example_static_node \<and> exec_replaced example_static_node \<and>
   JoinNode_run () BLOCK_ADD 3 (Num 0)
     (example_static_node\<lparr>dormant := True\<rparr>, [Undefined, Undefined, Undefined], [])
     = Inr (False, example_static_node\<lparr>dormant := True\<rparr>, [Undefined, Undefined, Undefined], [])"
proof -
  have a: "\<forall>c \<in> set [MoveConstraint (Static 5) 0 False :: unit Constraint].
             \<exists>src dst. kind c = MoveKind src dst \<and> Move_isStatic src"
    by (simp add: MoveConstraint_def)
  note t = static_JoinNode_dormancy [OF a, folded example_static_node_def]
  have s: "isStatic example_static_node" "\<not> dormant example_static_node" "exec_replaced example_static_node"
    using t by blast+
  have d: "isStatic (example_static_node\<lparr>dormant := True\<rparr>)" "dormant (example_static_node\<lparr>dormant := True\<rparr>)"
    "exec_replaced (example_static_node\<lparr>dormant := True\<rparr>)" "BLOCK_ADD \<noteq> BLOCK_REMOVE"
    using s by simp_all
  note r = t [THEN conjunct2, THEN conjunct2, THEN conjunct2, rule_format, THEN conjunct2, rule_format]
  have "JoinNode_run () BLOCK_ADD 3 (Num 0)
     (example_static_node\<lparr>dormant := True\<rparr>, [Undefined, Undefined, Undefined], [])
     = Inr (False, example_static_node\<lparr>dormant := True\<rparr>, [Undefined, Undefined, Undefined], [])"
    using d by (simp add: r)
  then show ?thesis using s by simp
qed

section \<open>Properties of the transaction: the evaluation loop\<close>

lemma set_insert_by [simp]: "set (insert_by cmp x ys) = insert x (set ys)"
  by (induction ys) auto



lemma rounds_in_order_Nil [simp]: "rounds_in_order []"
  by (simp add: rounds_in_order_def)

lemma rounds_in_order_append [simp]:
  "rounds_in_order (xs @ ys) \<longleftrightarrow> rounds_in_order xs \<and> rounds_in_order ys"
  by (simp add: rounds_in_order_def)
























section \<open>Properties of the transaction: exported multiplicities\<close>















end
